theory Spec2Isabelle
  imports Complex_Main
begin

section \<open>JavaScript values and the argument checks of the constructor\<close>

text \<open>
  The constructor of \<open>LoopController\<close> receives arbitrary JavaScript values. A value is
  \<open>undefined\<close>, \<open>null\<close>, a boolean, a number, a string, a function or another object.
  Numbers are the finite ones (modelled as exact reals), \<open>NaN\<close> and the two infinities
  (\<open>JSInfinity True\<close> is \<open>+Infinity\<close>). Functions and objects are reference values and carry
  an identity.
\<close>

datatype jsval =
    JSUndefined
  | JSNull
  | JSBoolean bool
  | JSNumber real
  | JSNaN
  | JSInfinity bool
  | JSString string
  | JSFunction nat
  | JSObject nat

text \<open>
  \<open>t.Function.is\<close> and \<open>t.Number.is\<close> come from the tcomb library: the first is
  \<open>typeof x === 'function'\<close>, the second is
  \<open>typeof x === 'number' && isFinite(x) && !isNaN(x)\<close>.
\<close>

fun t_Function_is :: "jsval \<Rightarrow> bool" where
  "t_Function_is (JSFunction f) = True"
| "t_Function_is v = False"

fun t_Number_is :: "jsval \<Rightarrow> bool" where
  "t_Number_is (JSNumber x) = True"
| "t_Number_is v = False"

text \<open>\<open>Math.round\<close> on a finite number: the nearest integer, ties towards \<open>+\<infinity>\<close>.\<close>

definition Math_round :: "real \<Rightarrow> int" where
  "Math_round x = \<lfloor>x + 1 / 2\<rfloor>"

datatype error = TypeError string | ReferenceError string


section \<open>Constants of the module\<close>

definition INVALID_REQUEST_ID :: int where
  "INVALID_REQUEST_ID = - 1"

definition FRAMERATE :: real where
  "FRAMERATE = 1000 / 60"

definition ALLOWED_OVERFLOW_FRAMES :: real where
  "ALLOWED_OVERFLOW_FRAMES = 10"

section \<open>The controller\<close>

text \<open>
  A step is a JavaScript function registered in \<open>updateSteps\<close> or \<open>renderSteps\<close>; it is
  identified by its reference. Timestamps are the integer milliseconds of
  \<open>Date.getTime()\<close>, and the threshold is the integer \<open>Math.round\<close> returns.
\<close>

type_synonym step = nat

record controller =
  isRunning :: bool
  isPaused :: bool
  updateSteps :: "step list"
  renderSteps :: "step list"
  startTimestamp :: int
  lastTimestamp :: int
  elapsedTimeInMilliseconds :: int
  frameRequestId :: int
  requestFrame :: jsval
  allowedOverflowThreshold :: int

text \<open>The field initialisers of the class; \<open>JSFunction 0\<close> is the arrow \<open>() => {}\<close>.\<close>

definition field_initialisers :: controller where
  "field_initialisers =
     \<lparr> isRunning = False,
       isPaused = False,
       updateSteps = [],
       renderSteps = [],
       startTimestamp = 0,
       lastTimestamp = 0,
       elapsedTimeInMilliseconds = 0,
       frameRequestId = INVALID_REQUEST_ID,
       requestFrame = JSFunction 0,
       allowedOverflowThreshold = Math_round (ALLOWED_OVERFLOW_FRAMES * FRAMERATE) \<rparr>"

text \<open>
  \<open>constructor(requestFrame = requestAnimationFrame, allowedOverflowFrames =
  ALLOWED_OVERFLOW_FRAMES)\<close>. An argument that is \<open>undefined\<close> takes its default. The
  default of the first one reads the global \<open>requestAnimationFrame\<close> of the host
  (\<open>None\<close> when the host declares none, which raises a \<open>ReferenceError\<close>).
\<close>

definition number_of :: "jsval \<Rightarrow> real" where
  "number_of v = (case v of JSNumber x \<Rightarrow> x | _ \<Rightarrow> 0)"

definition construct :: "jsval option \<Rightarrow> jsval \<Rightarrow> jsval \<Rightarrow> error + controller" where
  "construct host requestFrameArg allowedOverflowFramesArg =
     (case (if requestFrameArg = JSUndefined
            then (case host of
                    None \<Rightarrow> Inl (ReferenceError ''requestAnimationFrame is not defined'')
                  | Some g \<Rightarrow> Inr g)
            else Inr requestFrameArg) of
        Inl e \<Rightarrow> Inl e
      | Inr rf \<Rightarrow>
          (let allowedOverflowFrames =
                 (if allowedOverflowFramesArg = JSUndefined
                  then JSNumber ALLOWED_OVERFLOW_FRAMES
                  else allowedOverflowFramesArg)
           in if \<not> t_Function_is rf
              then Inl (TypeError ''Expected the requestFrame method to be a function'')
              else if \<not> t_Number_is allowedOverflowFrames
              then Inl (TypeError ''Expected the allowedOverflowFrames to be a number'')
              else Inr (field_initialisers
                     \<lparr> requestFrame := rf,
                       allowedOverflowThreshold :=
                         Math_round (number_of allowedOverflowFrames * FRAMERATE) \<rparr>)))"


section \<open>The host around the controller\<close>

text \<open>
  Everything the methods read or write besides the controller itself:
  \<^item> \<open>clock\<close>: what \<open>getCurrentTime()\<close> returns now;
  \<^item> \<open>frameSource\<close>: the behaviour of the injected \<open>requestFrame\<close>, as the handle it
    returns at its \<open>k\<close>-th call; it schedules the callback, returns, and does nothing
    else;
  \<^item> \<open>requested\<close>: the handles \<open>requestFrame\<close> has returned so far, oldest first;
  \<^item> \<open>cancelled\<close>: the handles passed to \<open>cancelAnimationFrame\<close> so far;
  \<^item> \<open>console\<close>: what step callbacks have logged.
\<close>

record world =
  loop :: controller
  clock :: int
  frameSource :: "nat \<Rightarrow> int"
  requested :: "int list"
  cancelled :: "int list"
  console :: "string list"

definition boot :: "controller \<Rightarrow> (nat \<Rightarrow> int) \<Rightarrow> int \<Rightarrow> world" where
  "boot c fs t =
     \<lparr> loop = c, clock = t, frameSource = fs, requested = [], cancelled = [], console = [] \<rparr>"

definition getCurrentTime :: "world \<Rightarrow> int" where
  "getCurrentTime w = clock w"

text \<open>\<open>this.frameRequestId = this.requestFrame(this.step)\<close>\<close>

definition requestNextFrame :: "world \<Rightarrow> world" where
  "requestNextFrame w =
     (let h = frameSource w (length (requested w))
      in w \<lparr> requested := requested w @ [h],
             loop := (loop w) \<lparr> frameRequestId := h \<rparr> \<rparr>)"

definition start :: "world \<Rightarrow> world" where
  "start w =
     (if isRunning (loop w) then w
      else
        (let w1 = requestNextFrame w;
             currentTimestamp = getCurrentTime w1;
             c = loop w1;
             c1 = (if \<not> isPaused c then c \<lparr> startTimestamp := currentTimestamp \<rparr> else c)
         in w1 \<lparr> loop := c1 \<lparr> lastTimestamp := currentTimestamp,
                              isPaused := False,
                              isRunning := True \<rparr> \<rparr>))"

definition stop :: "world \<Rightarrow> world" where
  "stop w =
     (if \<not> isRunning (loop w) \<or> frameRequestId (loop w) = INVALID_REQUEST_ID then w
      else w \<lparr> cancelled := cancelled w @ [frameRequestId (loop w)],
               loop := (loop w) \<lparr> frameRequestId := INVALID_REQUEST_ID,
                                  isRunning := False \<rparr> \<rparr>)"

definition pause :: "world \<Rightarrow> world" where
  "pause w =
     (if \<not> isRunning (loop w) \<or> isPaused (loop w) then w
      else (let w1 = stop w in w1 \<lparr> loop := (loop w1) \<lparr> isPaused := True \<rparr> \<rparr>))"

section \<open>Step callbacks and the two phases\<close>

text \<open>
  A step callback is client code. Called with its arguments it may read and change the
  whole world, the controller included, and it returns or throws; what it changed stays
  changed when it throws. \<open>body s args w\<close> is the effect of calling step \<open>s\<close>.
  The snapshot array of a phase is a local of \<open>update\<close> and \<open>render\<close>; a callback is
  given the world, not the snapshot (a callback that is not an arrow function could reach
  the copy as its \<open>this\<close>; that is left out).
\<close>

datatype outcome = Normal | Threw

type_synonym behaviour = "step \<Rightarrow> int list \<Rightarrow> world \<Rightarrow> outcome \<times> world"

text \<open>
  What a phase or a tick did: how it ended, the world it left, and the calls it made, in
  order (\<open>Updated s e\<close> is the call \<open>s(e)\<close> of the update phase, \<open>Rendered s\<close> the call
  \<open>s()\<close> of the render phase).
\<close>

datatype invocation = Updated step int | Rendered step

record completion =
  result :: outcome
  final :: world
  invoked :: "invocation list"

text \<open>
  The \<open>for\<close> loop of \<open>update\<close> over the copy \<open>steps = [...updateSteps]\<close>; an exception
  of a callback leaves the loop. The copy is a fresh array, which neither an assignment
  to \<open>updateSteps\<close> nor a change of the registered array in place reaches: the list the
  loop runs over is a value.
\<close>

fun update_loop :: "behaviour \<Rightarrow> step list \<Rightarrow> int \<Rightarrow> world \<Rightarrow> completion" where
  "update_loop body [] e w = \<lparr> result = Normal, final = w, invoked = [] \<rparr>"
| "update_loop body (s # steps) e w =
     (case body s [e] w of
        (Threw, w') \<Rightarrow> \<lparr> result = Threw, final = w', invoked = [Updated s e] \<rparr>
      | (Normal, w') \<Rightarrow>
          (let r = update_loop body steps e w'
           in r \<lparr> invoked := Updated s e # invoked r \<rparr>))"

definition update :: "behaviour \<Rightarrow> int \<Rightarrow> world \<Rightarrow> completion" where
  "update body elapsedTimeInMs w = update_loop body (updateSteps (loop w)) elapsedTimeInMs w"

fun render_loop :: "behaviour \<Rightarrow> step list \<Rightarrow> world \<Rightarrow> completion" where
  "render_loop body [] w = \<lparr> result = Normal, final = w, invoked = [] \<rparr>"
| "render_loop body (s # steps) w =
     (case body s [] w of
        (Threw, w') \<Rightarrow> \<lparr> result = Threw, final = w', invoked = [Rendered s] \<rparr>
      | (Normal, w') \<Rightarrow>
          (let r = render_loop body steps w'
           in r \<lparr> invoked := Rendered s # invoked r \<rparr>))"

definition render :: "behaviour \<Rightarrow> world \<Rightarrow> completion" where
  "render body w = render_loop body (renderSteps (loop w)) w"

section \<open>The tick\<close>

definition setLastTimestamp :: "int \<Rightarrow> world \<Rightarrow> world" where
  "setLastTimestamp t w = w \<lparr> loop := (loop w) \<lparr> lastTimestamp := t \<rparr> \<rparr>"

definition accumulate :: "int \<Rightarrow> world \<Rightarrow> world" where
  "accumulate e w =
     w \<lparr> loop := (loop w) \<lparr> elapsedTimeInMilliseconds :=
                              elapsedTimeInMilliseconds (loop w) + e \<rparr> \<rparr>"

definition step :: "behaviour \<Rightarrow> world \<Rightarrow> completion" where
  "step body w =
     (let allowed = allowedOverflowThreshold (loop w)
      in if \<not> isRunning (loop w) \<or> isPaused (loop w)
         then \<lparr> result = Normal, final = w, invoked = [] \<rparr>
         else
           (let w1 = requestNextFrame w;
                currentTimestamp = getCurrentTime w1;
                elapsedTime = currentTimestamp - lastTimestamp (loop w1)
            in if elapsedTime > allowed
               then \<lparr> result = Normal,
                      final = setLastTimestamp currentTimestamp w1,
                      invoked = [] \<rparr>
               else
                 (let u = update body elapsedTime (accumulate elapsedTime w1)
                  in if result u = Threw then u
                     else
                       (let r = render body (final u)
                        in if result r = Threw
                           then r \<lparr> invoked := invoked u @ invoked r \<rparr>
                           else \<lparr> result = Normal,
                                  final = setLastTimestamp currentTimestamp (final r),
                                  invoked = invoked u @ invoked r \<rparr>))))"

text \<open>
  Three moments of a tick that passes the guard: the elapsed time it computes, the world in
  which its update phase begins (the frame requested, the elapsed time added to the
  accumulator) and the world in which its render phase begins (the update phase done).
\<close>

definition elapsedSince :: "world \<Rightarrow> int" where
  "elapsedSince w = getCurrentTime w - lastTimestamp (loop w)"

definition atUpdate :: "world \<Rightarrow> world" where
  "atUpdate w = accumulate (elapsedSince w) (requestNextFrame w)"

definition atRender :: "behaviour \<Rightarrow> world \<Rightarrow> world" where
  "atRender body w = final (update body (elapsedSince w) (atUpdate w))"

section \<open>Runs\<close>

text \<open>
  What the owner of the controller can do between ticks, and a step callback during one:
  call the three public methods, assign the two step lists, log, and let time pass
  (the host clock never runs backwards).
\<close>

datatype call =
    CallStart
  | CallStop
  | CallPause
  | AssignUpdateSteps "step list"
  | AssignRenderSteps "step list"
  | Log string
  | Wait nat

fun perform :: "call \<Rightarrow> world \<Rightarrow> world" where
  "perform CallStart w = start w"
| "perform CallStop w = stop w"
| "perform CallPause w = pause w"
| "perform (AssignUpdateSteps ss) w = w \<lparr> loop := (loop w) \<lparr> updateSteps := ss \<rparr> \<rparr>"
| "perform (AssignRenderSteps ss) w = w \<lparr> loop := (loop w) \<lparr> renderSteps := ss \<rparr> \<rparr>"
| "perform (Log m) w = w \<lparr> console := console w @ [m] \<rparr>"
| "perform (Wait d) w = w \<lparr> clock := clock w + int d \<rparr>"

text \<open>An event of a run: the owner makes a call, or the Frame Source fires the tick.\<close>

datatype event = Owner call | Tick

fun exec :: "behaviour \<Rightarrow> event \<Rightarrow> world \<Rightarrow> world" where
  "exec body (Owner c) w = perform c w"
| "exec body Tick w = final (step body w)"

fun run :: "behaviour \<Rightarrow> event list \<Rightarrow> world \<Rightarrow> world" where
  "run body [] w = w"
| "run body (ev # evs) w = run body evs (exec body ev w)"

text \<open>The calls of step callbacks made by the ticks of a run, in order.\<close>

fun run_invoked :: "behaviour \<Rightarrow> event list \<Rightarrow> world \<Rightarrow> invocation list" where
  "run_invoked body [] w = []"
| "run_invoked body (Owner c # evs) w = run_invoked body evs (perform c w)"
| "run_invoked body (Tick # evs) w =
     invoked (step body w) @ run_invoked body evs (final (step body w))"

text \<open>
  Client code that acts through the public interface only: called in a world, a step
  decides on a list of calls and on whether it throws after them.
\<close>

type_synonym program = "step \<Rightarrow> int list \<Rightarrow> world \<Rightarrow> outcome \<times> call list"

definition script :: "program \<Rightarrow> behaviour" where
  "script prog s args w = (fst (prog s args w), fold perform (snd (prog s args w)) w)"

text \<open>
  Client code that leaves the lifecycle alone: it changes nothing of the controller but
  its two step lists, does not touch the Frame Source, and does not turn the clock back.
  \<open>untouched w w'\<close> relates the world before such code to the world after it.
\<close>

definition untouched :: "world \<Rightarrow> world \<Rightarrow> bool" where
  "untouched w w' \<longleftrightarrow>
     isRunning (loop w') = isRunning (loop w)
     \<and> isPaused (loop w') = isPaused (loop w)
     \<and> startTimestamp (loop w') = startTimestamp (loop w)
     \<and> lastTimestamp (loop w') = lastTimestamp (loop w)
     \<and> elapsedTimeInMilliseconds (loop w') = elapsedTimeInMilliseconds (loop w)
     \<and> frameRequestId (loop w') = frameRequestId (loop w)
     \<and> requestFrame (loop w') = requestFrame (loop w)
     \<and> allowedOverflowThreshold (loop w') = allowedOverflowThreshold (loop w)
     \<and> clock w \<le> clock w'
     \<and> frameSource w' = frameSource w
     \<and> requested w' = requested w
     \<and> cancelled w' = cancelled w"

definition passive_steps :: "behaviour \<Rightarrow> bool" where
  "passive_steps body \<longleftrightarrow> (\<forall>s args w. untouched w (snd (body s args w)))"

text \<open>
  The flags agree with each other and with the Frame Source: a paused controller is not
  running, a running controller holds a handle that is not the sentinel, and the Frame
  Source never returns the sentinel.
\<close>

definition consistent :: "world \<Rightarrow> bool" where
  "consistent w \<longleftrightarrow>
     (isPaused (loop w) \<longrightarrow> \<not> isRunning (loop w))
     \<and> (isRunning (loop w) \<longrightarrow> frameRequestId (loop w) \<noteq> INVALID_REQUEST_ID)
     \<and> (\<forall>k. frameSource w k \<noteq> INVALID_REQUEST_ID)"


text \<open>The steps a list of calls names, phase by phase.\<close>

fun updated_steps :: "invocation list \<Rightarrow> step list" where
  "updated_steps [] = []"
| "updated_steps (Updated s e # cs) = s # updated_steps cs"
| "updated_steps (Rendered s # cs) = updated_steps cs"

fun rendered_steps :: "invocation list \<Rightarrow> step list" where
  "rendered_steps [] = []"
| "rendered_steps (Updated s e # cs) = rendered_steps cs"
| "rendered_steps (Rendered s # cs) = s # rendered_steps cs"

section \<open>Example clients\<close>

text \<open>
  The controller \<open>new LoopController((callback) => window.requestAnimationFrame(callback))\<close>
  builds, and two Frame Sources: one that numbers its requests from 1, as
  \<open>requestAnimationFrame\<close> does, and one whose handle is always \<open>-1\<close>.
\<close>

definition demo :: controller where
  "demo = field_initialisers \<lparr> requestFrame := JSFunction 1, allowedOverflowThreshold := 167 \<rparr>"

definition counting :: "nat \<Rightarrow> int" where
  "counting k = int k + 1"

definition minusOne :: "nat \<Rightarrow> int" where
  "minusOne k = - 1"

text \<open>Steps that do nothing; step 0 logging \<open>U\<close> and every other step logging \<open>R\<close>.\<close>

definition idle :: behaviour where
  "idle s args w = (Normal, w)"

definition logger :: behaviour where
  "logger s args w = (Normal, w \<lparr> console := console w @ [if s = 0 then ''U'' else ''R''] \<rparr>)"

text \<open>
  Three more clients. In the first, step 0 unregisters every update step and registers
  step 2 as a further render step (\<open>loop.updateSteps = []\<close>,
  \<open>loop.renderSteps = [...loop.renderSteps, two]\<close>). In the second, step 0 puts the
  render steps in the opposite order (\<open>loop.renderSteps = [...loop.renderSteps].reverse()\<close>).
  In the third, step 0 calls \<open>loop.pause()\<close>.
\<close>

definition registrar :: behaviour where
  "registrar s args w =
     (if s = 0
      then (Normal, w \<lparr> loop := (loop w) \<lparr> updateSteps := [],
                                          renderSteps := renderSteps (loop w) @ [2] \<rparr> \<rparr>)
      else (Normal, w))"

definition reverser :: behaviour where
  "reverser s args w =
     (if s = 0
      then (Normal, w \<lparr> loop := (loop w) \<lparr> renderSteps := rev (renderSteps (loop w)) \<rparr> \<rparr>)
      else (Normal, w))"

definition pauser :: program where
  "pauser s args w = (Normal, if s = 0 then [CallPause] else [])"

text \<open>
  The controller with the given update and render steps, started at 1000 over the
  counting Frame Source, 16 ms later.
\<close>

definition primed :: "step list \<Rightarrow> step list \<Rightarrow> world" where
  "primed us rs =
     run idle [Owner (AssignUpdateSteps us), Owner (AssignRenderSteps rs),
               Owner CallStart, Owner (Wait 16)]
       (boot demo counting 1000)"

section \<open>Unfolding the model\<close>

lemmas model_defs =
  start_def stop_def pause_def step_def update_def render_def requestNextFrame_def
  getCurrentTime_def setLastTimestamp_def accumulate_def boot_def demo_def
  field_initialisers_def INVALID_REQUEST_ID_def counting_def minusOne_def Let_def

lemmas client_defs =
  primed_def idle_def logger_def registrar_def reverser_def elapsedSince_def atUpdate_def
  atRender_def

section \<open>Idempotence of start\<close>

text \<open>
  C4. When the controller is already running, \<open>start()\<close> changes nothing: the controller
  and the host are as before, so no frame is requested and \<open>startTimestamp\<close>,
  \<open>lastTimestamp\<close>, \<open>elapsedTimeInMilliseconds\<close> and \<open>frameRequestId\<close> keep their
  values. Hence a second \<open>start()\<close> right after a first one has no effect.
\<close>

theorem start_idempotent:
  "(isRunning (loop w) \<longrightarrow> start w = w) \<and> start (start w) = start w"
  by (simp add: start_def Let_def)

text \<open>A started controller, started again: still the one frame request of the first call.\<close>

theorem start_idempotent_witness:
  "isRunning (loop (start (boot demo counting 1000)))
   \<and> start (start (boot demo counting 1000)) = start (boot demo counting 1000)
   \<and> requested (start (start (boot demo counting 1000))) = [1]"
  using start_idempotent [of "start (boot demo counting 1000)"]
  by (simp add: model_defs)

section \<open>Dead frames\<close>

text \<open>
  C1. A tick that passes the guard (the controller is running and not paused) and finds
  more time elapsed since \<open>lastTimestamp\<close> than \<open>allowedOverflowThreshold\<close> calls no
  update step and no render step, leaves \<open>elapsedTimeInMilliseconds\<close> as it was and sets
  \<open>lastTimestamp\<close> to the current timestamp. All it does is request the next frame and
  move \<open>lastTimestamp\<close>.
\<close>

theorem overflow_tick_discarded:
  assumes "isRunning (loop w)" and "\<not> isPaused (loop w)"
    and "getCurrentTime w - lastTimestamp (loop w) > allowedOverflowThreshold (loop w)"
  shows "result (step body w) = Normal
       \<and> invoked (step body w) = []
       \<and> final (step body w) = setLastTimestamp (getCurrentTime w) (requestNextFrame w)
       \<and> elapsedTimeInMilliseconds (loop (final (step body w)))
           = elapsedTimeInMilliseconds (loop w)
       \<and> lastTimestamp (loop (final (step body w))) = getCurrentTime w"
  using assms
  by (simp add: step_def Let_def requestNextFrame_def getCurrentTime_def setLastTimestamp_def)

text \<open>Started at 1000 and ticked at 1200, with a threshold of 167: the tick is discarded.\<close>

theorem overflow_tick_discarded_witness:
  "isRunning (loop (run logger [Owner CallStart, Owner (Wait 200)] (boot demo counting 1000)))
   \<and> \<not> isPaused (loop (run logger [Owner CallStart, Owner (Wait 200)] (boot demo counting 1000)))
   \<and> getCurrentTime (run logger [Owner CallStart, Owner (Wait 200)] (boot demo counting 1000))
       - lastTimestamp (loop (run logger [Owner CallStart, Owner (Wait 200)]
                                (boot demo counting 1000)))
       > allowedOverflowThreshold (loop (run logger [Owner CallStart, Owner (Wait 200)]
                                           (boot demo counting 1000)))
   \<and> invoked (step logger (run logger [Owner CallStart, Owner (Wait 200)]
                              (boot demo counting 1000))) = []
   \<and> lastTimestamp (loop (final (step logger (run logger [Owner CallStart, Owner (Wait 200)]
                                                (boot demo counting 1000))))) = 1200
   \<and> elapsedTimeInMilliseconds
        (loop (final (step logger (run logger [Owner CallStart, Owner (Wait 200)]
                                     (boot demo counting 1000))))) = 0"
proof -
  let ?w = "run logger [Owner CallStart, Owner (Wait 200)] (boot demo counting 1000)"
  have r: "isRunning (loop ?w)" and p: "\<not> isPaused (loop ?w)"
    and o: "getCurrentTime ?w - lastTimestamp (loop ?w) > allowedOverflowThreshold (loop ?w)"
    by (simp_all add: model_defs)
  have c: "getCurrentTime ?w = 1200" "elapsedTimeInMilliseconds (loop ?w) = 0"
    by (simp_all add: model_defs)
  from overflow_tick_discarded [OF r p o, of logger] r p o c show ?thesis
    by (simp add: setLastTimestamp_def requestNextFrame_def start_def boot_def demo_def
          field_initialisers_def getCurrentTime_def Let_def)
qed

text \<open>
  The scenario of the specification: threshold 167, ticks after gaps of 16, 16, 200 and
  16 ms. The third tick is discarded, the other three run the update step, and the
  accumulator ends at 48.
\<close>

lemma dead_frame_scenario:
  "run_invoked logger
     [Owner (AssignUpdateSteps [0]), Owner CallStart, Owner (Wait 16), Tick, Owner (Wait 16),
      Tick, Owner (Wait 200), Tick, Owner (Wait 16), Tick]
     (boot demo counting 1000) = [Updated 0 16, Updated 0 16, Updated 0 16]
   \<and> elapsedTimeInMilliseconds (loop (run logger
       [Owner (AssignUpdateSteps [0]), Owner CallStart, Owner (Wait 16), Tick, Owner (Wait 16),
        Tick, Owner (Wait 200), Tick, Owner (Wait 16), Tick]
       (boot demo counting 1000))) = 48
   \<and> lastTimestamp (loop (run logger
       [Owner (AssignUpdateSteps [0]), Owner CallStart, Owner (Wait 16), Tick, Owner (Wait 16),
        Tick, Owner (Wait 200), Tick, Owner (Wait 16), Tick]
       (boot demo counting 1000))) = 1248
   \<and> requested (run logger
       [Owner (AssignUpdateSteps [0]), Owner CallStart, Owner (Wait 16), Tick, Owner (Wait 16),
        Tick, Owner (Wait 200), Tick, Owner (Wait 16), Tick]
       (boot demo counting 1000)) = [1, 2, 3, 4, 5]"
  by (simp add: model_defs logger_def)

section \<open>Construction\<close>






section \<open>Facts about the guard, the phases and a processed tick\<close>

lemma step_suppressed:
  "\<not> isRunning (loop v) \<or> isPaused (loop v) \<Longrightarrow>
   step body v = \<lparr> result = Normal, final = v, invoked = [] \<rparr>"
  by (auto simp add: step_def Let_def)

lemma update_loop_preserves:
  assumes "\<And>s v. P v \<Longrightarrow> P (snd (body s [e] v))" and "P w"
  shows "P (final (update_loop body ss e w))"
  using assms(2)
proof (induction ss arbitrary: w)
  case Nil
  then show ?case by simp
next
  case (Cons s ss)
  obtain r w' where b: "body s [e] w = (r, w')" by (cases "body s [e] w")
  from assms(1) [OF Cons.prems, of s] b have "P w'" by simp
  with Cons.IH [of w'] b show ?case by (cases r) (simp_all add: Let_def)
qed

lemma render_loop_preserves:
  assumes "\<And>s v. P v \<Longrightarrow> P (snd (body s [] v))" and "P w"
  shows "P (final (render_loop body ss w))"
  using assms(2)
proof (induction ss arbitrary: w)
  case Nil
  then show ?case by simp
next
  case (Cons s ss)
  obtain r w' where b: "body s [] w = (r, w')" by (cases "body s [] w")
  from assms(1) [OF Cons.prems, of s] b have "P w'" by simp
  with Cons.IH [of w'] b show ?case by (cases r) (simp_all add: Let_def)
qed

lemma update_loop_calls:
  "result (update_loop body ss e w) = Normal \<Longrightarrow>
   invoked (update_loop body ss e w) = map (\<lambda>s. Updated s e) ss"
proof (induction ss arbitrary: w)
  case Nil
  then show ?case by simp
next
  case (Cons s ss)
  obtain r w' where b: "body s [e] w = (r, w')" by (cases "body s [e] w")
  with Cons show ?case by (cases r) (simp_all add: Let_def)
qed

lemma render_loop_calls:
  "result (render_loop body ss w) = Normal \<Longrightarrow>
   invoked (render_loop body ss w) = map Rendered ss"
proof (induction ss arbitrary: w)
  case Nil
  then show ?case by simp
next
  case (Cons s ss)
  obtain r w' where b: "body s [] w = (r, w')" by (cases "body s [] w")
  with Cons show ?case by (cases r) (simp_all add: Let_def)
qed



lemma updated_steps_map [simp]:
  "updated_steps (map (\<lambda>s. Updated s e) ss @ cs) = ss @ updated_steps cs"
  by (induction ss) simp_all

lemma rendered_steps_map [simp]:
  "rendered_steps (map (\<lambda>s. Updated s e) ss @ cs) = rendered_steps cs"
  by (induction ss) simp_all

lemma updated_steps_rendered [simp]: "updated_steps (map Rendered ss) = []"
  by (induction ss) simp_all

lemma rendered_steps_rendered [simp]: "rendered_steps (map Rendered ss) = ss"
  by (induction ss) simp_all

lemma outcome_not_Threw [simp]: "(r \<noteq> Threw) = (r = Normal)"
  by (cases r) simp_all

lemma step_processed:
  assumes "isRunning (loop w)" and "\<not> isPaused (loop w)"
    and "elapsedSince w \<le> allowedOverflowThreshold (loop w)"
  shows "step body w =
     (if result (update body (elapsedSince w) (atUpdate w)) = Threw
      then update body (elapsedSince w) (atUpdate w)
      else if result (render body (atRender body w)) = Threw
      then (render body (atRender body w))
             \<lparr> invoked := invoked (update body (elapsedSince w) (atUpdate w))
                           @ invoked (render body (atRender body w)) \<rparr>
      else \<lparr> result = Normal,
             final = setLastTimestamp (getCurrentTime w) (final (render body (atRender body w))),
             invoked = invoked (update body (elapsedSince w) (atUpdate w))
                       @ invoked (render body (atRender body w)) \<rparr>)"
proof -
  have g: "getCurrentTime (requestNextFrame w) = getCurrentTime w"
    "lastTimestamp (loop (requestNextFrame w)) = lastTimestamp (loop w)"
    by (simp_all add: requestNextFrame_def getCurrentTime_def Let_def)
  from assms g show ?thesis
    by (simp add: step_def Let_def elapsedSince_def atUpdate_def atRender_def)
qed

lemma atUpdate_steps:
  "updateSteps (loop (atUpdate w)) = updateSteps (loop w)"
  "renderSteps (loop (atUpdate w)) = renderSteps (loop w)"
  by (simp_all add: atUpdate_def accumulate_def requestNextFrame_def Let_def)

lemma step_processed_normal:
  assumes "isRunning (loop w)" and "\<not> isPaused (loop w)"
    and "elapsedSince w \<le> allowedOverflowThreshold (loop w)"
    and "result (step body w) = Normal"
  shows "invoked (step body w)
         = map (\<lambda>s. Updated s (elapsedSince w)) (updateSteps (loop w))
           @ map Rendered (renderSteps (loop (atRender body w)))"
proof -
  let ?u = "update body (elapsedSince w) (atUpdate w)"
  let ?r = "render body (atRender body w)"
  note s = step_processed [OF assms(1-3), of body]
  from assms(4) s have u: "result ?u = Normal"
    by (cases "result ?u") (simp_all split: if_splits)
  from assms(4) s u have r: "result ?r = Normal"
    by (cases "result ?r") (simp_all split: if_splits)
  from u have cu: "invoked ?u = map (\<lambda>s. Updated s (elapsedSince w)) (updateSteps (loop w))"
    by (simp add: update_def update_loop_calls atUpdate_steps)
  from r have cr: "invoked ?r = map Rendered (renderSteps (loop (atRender body w)))"
    by (simp add: render_def render_loop_calls)
  from s u r cu cr show ?thesis by simp
qed


section \<open>The steps a tick runs\<close>

text \<open>
  C2, as stated, fails for the render steps: \<open>render\<close> copies \<open>renderSteps\<close> when the
  render phase begins, not when the tick begins. Here update step 0 registers render
  step 2 during the update phase; the tick began with the render steps \<open>[1]\<close> and runs
  the render steps \<open>[1, 2]\<close>.
\<close>

theorem phase_snapshots_counterexample:
  "isRunning (loop (primed [0, 3] [1])) \<and> \<not> isPaused (loop (primed [0, 3] [1]))
   \<and> elapsedSince (primed [0, 3] [1]) = 16
   \<and> allowedOverflowThreshold (loop (primed [0, 3] [1])) = 167
   \<and> result (step registrar (primed [0, 3] [1])) = Normal
   \<and> renderSteps (loop (primed [0, 3] [1])) = [1]
   \<and> rendered_steps (invoked (step registrar (primed [0, 3] [1]))) = [1, 2]"
  by (simp add: model_defs client_defs)

text \<open>
  C2, amended. In a tick that is processed, is not discarded and in which no step throws,
  whatever the step callbacks do to \<open>updateSteps\<close> and \<open>renderSteps\<close>: the update steps
  run are exactly \<open>updateSteps\<close> as it was when the tick began, and the render steps run
  are exactly \<open>renderSteps\<close> as it was when the render phase began, that is, when the
  last update step had returned.
\<close>

theorem phase_snapshots:
  assumes "isRunning (loop w)" and "\<not> isPaused (loop w)"
    and "elapsedSince w \<le> allowedOverflowThreshold (loop w)"
    and "result (step body w) = Normal"
  shows "updated_steps (invoked (step body w)) = updateSteps (loop w)
       \<and> rendered_steps (invoked (step body w)) = renderSteps (loop (atRender body w))"
  using step_processed_normal [OF assms] updated_steps_map [of "elapsedSince w" _ "[]"]
  by simp

text \<open>
  Update step 0 empties \<open>updateSteps\<close> and extends \<open>renderSteps\<close>: update steps 0 and 3
  both run, and so do render steps 1 and 2.
\<close>

theorem phase_snapshots_witness:
  "isRunning (loop (primed [0, 3] [1])) \<and> \<not> isPaused (loop (primed [0, 3] [1]))
   \<and> elapsedSince (primed [0, 3] [1]) \<le> allowedOverflowThreshold (loop (primed [0, 3] [1]))
   \<and> result (step registrar (primed [0, 3] [1])) = Normal
   \<and> updateSteps (loop (final (step registrar (primed [0, 3] [1])))) = []
   \<and> updated_steps (invoked (step registrar (primed [0, 3] [1]))) = [0, 3]
   \<and> rendered_steps (invoked (step registrar (primed [0, 3] [1]))) = [1, 2]"
proof -
  let ?w = "primed [0, 3] [1]"
  have a: "isRunning (loop ?w)" and b: "\<not> isPaused (loop ?w)"
    and c: "elapsedSince ?w \<le> allowedOverflowThreshold (loop ?w)"
    and d: "result (step registrar ?w) = Normal"
    and e: "updateSteps (loop ?w) = [0, 3]" "renderSteps (loop (atRender registrar ?w)) = [1, 2]"
      "updateSteps (loop (final (step registrar ?w))) = []"
    by (simp_all add: model_defs client_defs)
  from phase_snapshots [OF a b c d] a b c d e show ?thesis
    by simp
qed

section \<open>The order of the calls in a tick\<close>




section \<open>Stopping\<close>






section \<open>Clients that leave the lifecycle alone\<close>

lemma untouched_refl: "untouched w w"
  by (simp add: untouched_def)

lemma untouched_trans: "untouched a b \<Longrightarrow> untouched b c \<Longrightarrow> untouched a c"
  by (simp add: untouched_def)

lemma passive_update:
  assumes "passive_steps body"
  shows "untouched w (final (update body e w))"
  unfolding update_def
proof (rule update_loop_preserves [where P = "untouched w"])
  fix s v
  assume "untouched w v"
  moreover from assms have "untouched v (snd (body s [e] v))"
    by (simp add: passive_steps_def)
  ultimately show "untouched w (snd (body s [e] v))" by (rule untouched_trans)
qed (rule untouched_refl)

lemma passive_render:
  assumes "passive_steps body"
  shows "untouched w (final (render body w))"
  unfolding render_def
proof (rule render_loop_preserves [where P = "untouched w"])
  fix s v
  assume "untouched w v"
  moreover from assms have "untouched v (snd (body s [] v))"
    by (simp add: passive_steps_def)
  ultimately show "untouched w (snd (body s [] v))" by (rule untouched_trans)
qed (rule untouched_refl)

lemma passive_step:
  assumes p: "passive_steps body"
  shows "isRunning (loop (final (step body w))) = isRunning (loop w)
       \<and> isPaused (loop (final (step body w))) = isPaused (loop w)
       \<and> startTimestamp (loop (final (step body w))) = startTimestamp (loop w)
       \<and> clock w \<le> clock (final (step body w))
       \<and> frameSource (final (step body w)) = frameSource w
       \<and> cancelled (final (step body w)) = cancelled w
       \<and> (lastTimestamp (loop w) \<le> clock w \<longrightarrow>
            lastTimestamp (loop (final (step body w))) \<le> clock (final (step body w))
            \<and> elapsedTimeInMilliseconds (loop w)
               \<le> elapsedTimeInMilliseconds (loop (final (step body w))))
       \<and> requested (final (step body w))
          = (if isRunning (loop w) \<and> \<not> isPaused (loop w)
             then requested w @ [frameSource w (length (requested w))] else requested w)
       \<and> frameRequestId (loop (final (step body w)))
          = (if isRunning (loop w) \<and> \<not> isPaused (loop w)
             then frameSource w (length (requested w)) else frameRequestId (loop w))"
proof -
  consider (suppressed) "\<not> isRunning (loop w) \<or> isPaused (loop w)"
    | (dead) "isRunning (loop w)" "\<not> isPaused (loop w)"
        "elapsedSince w > allowedOverflowThreshold (loop w)"
    | (processed) "isRunning (loop w)" "\<not> isPaused (loop w)"
        "elapsedSince w \<le> allowedOverflowThreshold (loop w)"
    by fastforce
  then show ?thesis
  proof cases
    case suppressed
    then show ?thesis by (auto simp add: step_suppressed)
  next
    case dead
    then show ?thesis
      by (simp add: step_def Let_def requestNextFrame_def getCurrentTime_def
            setLastTimestamp_def elapsedSince_def)
  next
    case processed
    let ?u = "update body (elapsedSince w) (atUpdate w)"
    let ?r = "render body (atRender body w)"
    have U: "untouched (atUpdate w) (atRender body w)"
      unfolding atRender_def by (rule passive_update [OF p])
    have R: "untouched (atRender body w) (final ?r)"
      by (rule passive_render [OF p])
    have UR: "untouched (atUpdate w) (final ?r)"
      by (rule untouched_trans [OF U R])
    have f: "final (step body w) = atRender body w
           \<or> final (step body w) = final ?r
           \<or> final (step body w) = setLastTimestamp (getCurrentTime w) (final ?r)"
      using step_processed [OF processed, of body] by (simp add: atRender_def)
    from f show ?thesis
    proof (elim disjE)
      assume "final (step body w) = atRender body w"
      with U processed show ?thesis
        by (simp add: untouched_def atUpdate_def accumulate_def requestNextFrame_def
              elapsedSince_def getCurrentTime_def Let_def)
    next
      assume "final (step body w) = final ?r"
      with UR processed show ?thesis
        by (simp add: untouched_def atUpdate_def accumulate_def requestNextFrame_def
              elapsedSince_def getCurrentTime_def Let_def)
    next
      assume "final (step body w) = setLastTimestamp (getCurrentTime w) (final ?r)"
      with UR processed show ?thesis
        by (simp add: untouched_def atUpdate_def accumulate_def requestNextFrame_def
              elapsedSince_def getCurrentTime_def setLastTimestamp_def Let_def)
    qed
  qed
qed

section \<open>Pause and resume\<close>










lemma passive_logger: "passive_steps logger"
  by (simp add: passive_steps_def untouched_def logger_def)


section \<open>Paused and running exclude each other\<close>

lemma step_dead:
  assumes "isRunning (loop w)" and "\<not> isPaused (loop w)"
    and "elapsedSince w > allowedOverflowThreshold (loop w)"
  shows "step body w = \<lparr> result = Normal,
                          final = setLastTimestamp (getCurrentTime w) (requestNextFrame w),
                          invoked = [] \<rparr>"
  using assms
  by (simp add: step_def Let_def requestNextFrame_def getCurrentTime_def elapsedSince_def)

lemma step_preserves:
  assumes body: "\<And>s a v. P v \<Longrightarrow> P (snd (body s a v))"
    and rq: "\<And>v. P v \<Longrightarrow> P (requestNextFrame v)"
    and ac: "\<And>e v. P v \<Longrightarrow> P (accumulate e v)"
    and sl: "\<And>t v. P v \<Longrightarrow> P (setLastTimestamp t v)"
    and w: "P w"
  shows "P (final (step body w))"
proof -
  consider (suppressed) "\<not> isRunning (loop w) \<or> isPaused (loop w)"
    | (dead) "isRunning (loop w)" "\<not> isPaused (loop w)"
        "elapsedSince w > allowedOverflowThreshold (loop w)"
    | (processed) "isRunning (loop w)" "\<not> isPaused (loop w)"
        "elapsedSince w \<le> allowedOverflowThreshold (loop w)"
    by fastforce
  then show ?thesis
  proof cases
    case suppressed
    with w show ?thesis by (simp add: step_suppressed)
  next
    case dead
    from sl [OF rq [OF w]] show ?thesis by (simp add: step_dead [OF dead])
  next
    case processed
    let ?r = "render body (atRender body w)"
    have a: "P (atUpdate w)"
      unfolding atUpdate_def by (rule ac [OF rq [OF w]])
    have b: "P (atRender body w)"
      unfolding atRender_def update_def
      by (rule update_loop_preserves [where P = P]) (simp_all add: body a)
    have c: "P (final ?r)"
      unfolding render_def
      by (rule render_loop_preserves [where P = P]) (simp_all add: body b)
    have f: "final (step body w) = atRender body w
           \<or> final (step body w) = final ?r
           \<or> final (step body w) = setLastTimestamp (getCurrentTime w) (final ?r)"
      using step_processed [OF processed, of body] by (simp add: atRender_def)
    with b c sl [OF c] show ?thesis by auto
  qed
qed

lemma consistent_perform: "consistent v \<Longrightarrow> consistent (perform c v)"
  by (cases c)
     (auto simp add: consistent_def start_def stop_def pause_def requestNextFrame_def
        getCurrentTime_def Let_def)

lemma consistent_fold: "consistent v \<Longrightarrow> consistent (fold perform cs v)"
  by (induction cs arbitrary: v) (simp_all add: consistent_perform)

lemma consistent_step: "consistent w \<Longrightarrow> consistent (final (step (script prog) w))"
proof (rule step_preserves [where P = consistent])
  fix s a v
  assume "consistent v"
  then show "consistent (snd (script prog s a v))"
    by (simp add: script_def consistent_fold)
qed (auto simp add: consistent_def requestNextFrame_def accumulate_def setLastTimestamp_def Let_def)

lemma consistent_run: "consistent w \<Longrightarrow> consistent (run (script prog) evs w)"
proof (induction evs arbitrary: w)
  case Nil
  then show ?case by simp
next
  case (Cons ev evs)
  have "consistent (exec (script prog) ev w)"
    using Cons.prems by (cases ev) (simp_all add: consistent_perform consistent_step)
  from Cons.IH [OF this] show ?case by simp
qed

lemma constructed_idle:
  "construct host rfArg nArg = Inr c \<Longrightarrow> \<not> isRunning c \<and> \<not> isPaused c"
  by (auto simp add: construct_def field_initialisers_def Let_def
        split: if_splits option.splits sum.splits)

text \<open>
  Over a Frame Source that never returns the sentinel \<open>-1\<close>, and with step callbacks
  that act on the controller through \<open>start()\<close>, \<open>stop()\<close>, \<open>pause()\<close> and the two
  step lists, the two flags do exclude each other: in every state reached from
  construction by calls of the owner and ticks, a paused controller is not running, and a
  \<open>pause()\<close> of a running, unpaused controller leaves it paused and not running.
\<close>

lemma exclusive_without_sentinel_handles:
  assumes "construct host rfArg nArg = Inr c" and "\<forall>k. fs k \<noteq> INVALID_REQUEST_ID"
  shows "(isPaused (loop (run (script prog) evs (boot c fs t)))
          \<longrightarrow> \<not> isRunning (loop (run (script prog) evs (boot c fs t))))
       \<and> (isRunning (loop (run (script prog) evs (boot c fs t)))
          \<and> \<not> isPaused (loop (run (script prog) evs (boot c fs t)))
          \<longrightarrow> isPaused (loop (pause (run (script prog) evs (boot c fs t))))
              \<and> \<not> isRunning (loop (pause (run (script prog) evs (boot c fs t)))))"
proof -
  from constructed_idle [OF assms(1)] assms(2) have "consistent (boot c fs t)"
    by (simp add: consistent_def boot_def)
  then have r: "consistent (run (script prog) evs (boot c fs t))"
    by (rule consistent_run)
  then have p: "consistent (pause (run (script prog) evs (boot c fs t)))"
    using consistent_perform [of _ CallPause] by simp
  have q: "isRunning (loop v) \<and> \<not> isPaused (loop v) \<longrightarrow> isPaused (loop (pause v))" for v
    by (simp add: pause_def stop_def Let_def)
  from r p q show ?thesis by (simp add: consistent_def)
qed

text \<open>
  C9. In every state reached from construction by \<open>start()\<close>, \<open>stop()\<close>, \<open>pause()\<close> and
  ticks, \<open>isPaused\<close> should imply that \<open>isRunning\<close> is false (the comment of
  \<open>isRunning\<close> calls the two mutually exclusive). The code does not keep this: over a
  Frame Source whose handle is \<open>-1\<close>, after \<open>start()\<close> and \<open>pause()\<close> the constructed
  controller is paused and running at once. The \<open>stop()\<close> inside \<open>pause()\<close> returned at
  its guard, nothing was cancelled, and \<open>pause()\<close> set \<open>isPaused\<close> all the same.
\<close>

theorem pause_leaves_running_with_sentinel_handle:
  "construct (Some (JSFunction 7)) (JSFunction 1) (JSNumber 10) = Inr demo
   \<and> isPaused (loop (run (script pauser) [Owner CallStart, Owner CallPause]
                      (boot demo minusOne 1000)))
   \<and> isRunning (loop (run (script pauser) [Owner CallStart, Owner CallPause]
                       (boot demo minusOne 1000)))
   \<and> cancelled (run (script pauser) [Owner CallStart, Owner CallPause]
                  (boot demo minusOne 1000)) = []"
  by (simp add: model_defs construct_def Math_round_def FRAMERATE_def number_of_def)

text \<open>
  Over the counting Frame Source, an update step that calls \<open>pause()\<close> during the first
  tick: the request of that tick is cancelled, and the controller ends paused and not
  running.
\<close>

lemma exclusive_without_sentinel_handles_example:
  "construct (Some (JSFunction 7)) (JSFunction 1) (JSNumber 10) = Inr demo
   \<and> (\<forall>k. counting k \<noteq> INVALID_REQUEST_ID)
   \<and> isPaused (loop (run (script pauser)
        [Owner (AssignUpdateSteps [0]), Owner CallStart, Owner (Wait 16), Tick, Owner CallStop,
         Owner CallPause, Tick]
        (boot demo counting 1000)))
   \<and> \<not> isRunning (loop (run (script pauser)
        [Owner (AssignUpdateSteps [0]), Owner CallStart, Owner (Wait 16), Tick, Owner CallStop,
         Owner CallPause, Tick]
        (boot demo counting 1000)))
   \<and> cancelled (run (script pauser)
        [Owner (AssignUpdateSteps [0]), Owner CallStart, Owner (Wait 16), Tick, Owner CallStop,
         Owner CallPause, Tick]
        (boot demo counting 1000)) = [2]
   \<and> isRunning (loop (run (script pauser) [Owner CallStart] (boot demo counting 1000)))
   \<and> \<not> isPaused (loop (run (script pauser) [Owner CallStart] (boot demo counting 1000)))
   \<and> isPaused (loop (pause (run (script pauser) [Owner CallStart] (boot demo counting 1000))))
   \<and> \<not> isRunning (loop (pause (run (script pauser) [Owner CallStart]
                                    (boot demo counting 1000))))"
proof -
  let ?evs = "[Owner (AssignUpdateSteps [0]), Owner CallStart, Owner (Wait 16), Tick,
               Owner CallStop, Owner CallPause, Tick]"
  have c: "construct (Some (JSFunction 7)) (JSFunction 1) (JSNumber 10) = Inr demo"
    by (simp add: model_defs construct_def Math_round_def FRAMERATE_def number_of_def)
  have f: "\<forall>k. counting k \<noteq> INVALID_REQUEST_ID"
    by (simp add: counting_def INVALID_REQUEST_ID_def)
  have e: "isPaused (loop (run (script pauser) ?evs (boot demo counting 1000)))"
    "cancelled (run (script pauser) ?evs (boot demo counting 1000)) = [2]"
    by (simp_all add: model_defs script_def pauser_def)
  have g: "isRunning (loop (run (script pauser) [Owner CallStart] (boot demo counting 1000)))"
    "\<not> isPaused (loop (run (script pauser) [Owner CallStart] (boot demo counting 1000)))"
    by (simp_all add: model_defs)
  from exclusive_without_sentinel_handles [OF c f, of pauser ?evs 1000]
    exclusive_without_sentinel_handles [OF c f, of pauser "[Owner CallStart]" 1000] c f e g
  show ?thesis by simp
qed

section \<open>A handle that equals the sentinel\<close>

lemma stuck_exec:
  assumes "passive_steps body" and "ev \<noteq> Owner CallPause"
    and "isRunning (loop w)" and "\<not> isPaused (loop w)"
    and "frameRequestId (loop w) = INVALID_REQUEST_ID"
    and "\<forall>k. frameSource w k = INVALID_REQUEST_ID"
  shows "isRunning (loop (exec body ev w)) \<and> \<not> isPaused (loop (exec body ev w))
       \<and> frameRequestId (loop (exec body ev w)) = INVALID_REQUEST_ID
       \<and> (\<forall>k. frameSource (exec body ev w) k = INVALID_REQUEST_ID)
       \<and> cancelled (exec body ev w) = cancelled w
       \<and> requested (exec body ev w)
          = requested w @ replicate (count_list [ev] Tick) INVALID_REQUEST_ID"
proof (cases ev)
  case (Owner c)
  with assms(2-6) show ?thesis
    by (cases c) (simp_all add: start_def stop_def)
next
  case Tick
  with passive_step [OF assms(1), of w] assms(3-6) show ?thesis by simp
qed

lemma stuck_run:
  assumes "passive_steps body" and "Owner CallPause \<notin> set evs"
    and "isRunning (loop w)" and "\<not> isPaused (loop w)"
    and "frameRequestId (loop w) = INVALID_REQUEST_ID"
    and "\<forall>k. frameSource w k = INVALID_REQUEST_ID"
  shows "isRunning (loop (run body evs w))
       \<and> cancelled (run body evs w) = cancelled w
       \<and> requested (run body evs w)
          = requested w @ replicate (count_list evs Tick) INVALID_REQUEST_ID"
  using assms(2-6)
proof (induction evs arbitrary: w)
  case Nil
  then show ?case by simp
next
  case (Cons ev evs)
  from Cons.prems(1) have ne: "ev \<noteq> Owner CallPause" and rest: "Owner CallPause \<notin> set evs"
    by auto
  note e = stuck_exec [OF assms(1) ne Cons.prems(2-5)]
  from e have i: "isRunning (loop (exec body ev w))" "\<not> isPaused (loop (exec body ev w))"
    "frameRequestId (loop (exec body ev w)) = INVALID_REQUEST_ID"
    "\<forall>k. frameSource (exec body ev w) k = INVALID_REQUEST_ID"
    by simp_all
  from Cons.IH [OF rest i] e show ?case
    by (simp add: replicate_add [symmetric] del: replicate_add)
qed

lemma jammed_exec:
  assumes "isRunning (loop w)" and "isPaused (loop w)"
    and "frameRequestId (loop w) = INVALID_REQUEST_ID"
  shows "isRunning (loop (exec body ev w)) \<and> isPaused (loop (exec body ev w))
       \<and> frameRequestId (loop (exec body ev w)) = INVALID_REQUEST_ID
       \<and> cancelled (exec body ev w) = cancelled w
       \<and> requested (exec body ev w) = requested w
       \<and> (ev = Tick \<longrightarrow> invoked (step body w) = [])"
proof (cases ev)
  case (Owner c)
  with assms show ?thesis
    by (cases c) (simp_all add: start_def stop_def pause_def)
next
  case Tick
  with assms show ?thesis by (simp add: step_suppressed)
qed

lemma jammed_run:
  assumes "isRunning (loop w)" and "isPaused (loop w)"
    and "frameRequestId (loop w) = INVALID_REQUEST_ID"
  shows "isRunning (loop (run body evs w)) \<and> isPaused (loop (run body evs w))
       \<and> cancelled (run body evs w) = cancelled w
       \<and> requested (run body evs w) = requested w
       \<and> run_invoked body evs w = []"
  using assms
proof (induction evs arbitrary: w)
  case Nil
  then show ?case by simp
next
  case (Cons ev evs)
  note e = jammed_exec [OF Cons.prems, of body ev]
  from e have i: "isRunning (loop (exec body ev w))" "isPaused (loop (exec body ev w))"
    "frameRequestId (loop (exec body ev w)) = INVALID_REQUEST_ID"
    by simp_all
  from Cons.IH [OF i] e show ?case
    by (cases ev) simp_all
qed

text \<open>
  C10, amended. Let the controller be running and unpaused with the sentinel \<open>-1\<close> as
  its handle, over a Frame Source that returns \<open>-1\<close>. Then \<open>stop()\<close> changes nothing at
  all; whatever the owner calls except \<open>pause()\<close>, the controller stays running, nothing
  is cancelled and every tick requests a further frame, so \<open>stop()\<close> cannot halt the
  loop. \<open>pause()\<close> cancels nothing and leaves \<open>isRunning\<close> set as well, but it sets
  \<open>isPaused\<close>: from then on every tick returns at its guard, no step is called and no
  frame is requested, whatever is called afterwards. So \<open>pause()\<close> does halt the loop,
  and no \<open>start()\<close> revives it.
\<close>

theorem sentinel_handle_defeats_stop:
  assumes "isRunning (loop w)" and "\<not> isPaused (loop w)"
    and "frameRequestId (loop w) = INVALID_REQUEST_ID"
    and "\<forall>k. frameSource w k = INVALID_REQUEST_ID"
    and "passive_steps body" and "Owner CallPause \<notin> set evs"
  shows "stop w = w
       \<and> isRunning (loop (run body evs w))
       \<and> cancelled (run body evs w) = cancelled w
       \<and> requested (run body evs w)
          = requested w @ replicate (count_list evs Tick) INVALID_REQUEST_ID
       \<and> pause w = w \<lparr> loop := (loop w) \<lparr> isPaused := True \<rparr> \<rparr>
       \<and> isRunning (loop (run anybody later (pause w)))
       \<and> cancelled (run anybody later (pause w)) = cancelled w
       \<and> requested (run anybody later (pause w)) = requested w
       \<and> run_invoked anybody later (pause w) = []"
proof -
  have s: "stop w = w" using assms(1,3) by (simp add: stop_def)
  have p: "pause w = w \<lparr> loop := (loop w) \<lparr> isPaused := True \<rparr> \<rparr>"
    using assms(1,2) s by (simp add: pause_def Let_def)
  have j: "isRunning (loop (pause w))" "isPaused (loop (pause w))"
    "frameRequestId (loop (pause w)) = INVALID_REQUEST_ID"
    "cancelled (pause w) = cancelled w" "requested (pause w) = requested w"
    using assms(1,3) by (simp_all add: p)
  from stuck_run [OF assms(5,6,1,2,3,4)] jammed_run [OF j(1-3), of anybody later] s p j(4,5)
  show ?thesis by simp
qed

text \<open>
  C10, as stated, fails in its last clause: \<open>pause()\<close> halts the loop. Over the Frame
  Source whose handle is \<open>-1\<close>, after \<open>start()\<close> and \<open>pause()\<close> two ticks call no step
  and request no frame; after \<open>start()\<close> and \<open>stop()\<close> the same two ticks both run the
  update step.
\<close>

theorem sentinel_handle_defeats_stop_counterexample:
  "isRunning (loop (run logger [Owner (AssignUpdateSteps [0]), Owner CallStart]
                      (boot demo minusOne 1000)))
   \<and> frameRequestId (loop (run logger [Owner (AssignUpdateSteps [0]), Owner CallStart]
                             (boot demo minusOne 1000))) = - 1
   \<and> requested (run logger
        [Owner (AssignUpdateSteps [0]), Owner CallStart, Owner CallPause, Owner (Wait 16), Tick,
         Owner (Wait 16), Tick]
        (boot demo minusOne 1000)) = [- 1]
   \<and> run_invoked logger
        [Owner (AssignUpdateSteps [0]), Owner CallStart, Owner CallPause, Owner (Wait 16), Tick,
         Owner (Wait 16), Tick]
        (boot demo minusOne 1000) = []
   \<and> run_invoked logger
        [Owner (AssignUpdateSteps [0]), Owner CallStart, Owner CallStop, Owner (Wait 16), Tick,
         Owner (Wait 16), Tick]
        (boot demo minusOne 1000) = [Updated 0 16, Updated 0 16]"
  by (simp add: model_defs logger_def)

text \<open>
  Started over the Frame Source whose handle is \<open>-1\<close>: two \<open>stop()\<close> calls and two
  ticks later the controller runs and has requested three frames; paused instead, it
  requests none, also after a \<open>start()\<close>.
\<close>

theorem sentinel_handle_defeats_stop_witness:
  "isRunning (loop (start (boot demo minusOne 1000)))
   \<and> \<not> isPaused (loop (start (boot demo minusOne 1000)))
   \<and> frameRequestId (loop (start (boot demo minusOne 1000))) = INVALID_REQUEST_ID
   \<and> (\<forall>k. frameSource (start (boot demo minusOne 1000)) k = INVALID_REQUEST_ID)
   \<and> passive_steps logger
   \<and> Owner CallPause \<notin> set [Owner CallStop, Owner (Wait 16), Tick, Owner CallStop, Tick]
   \<and> stop (start (boot demo minusOne 1000)) = start (boot demo minusOne 1000)
   \<and> isRunning (loop (run logger [Owner CallStop, Owner (Wait 16), Tick, Owner CallStop, Tick]
                         (start (boot demo minusOne 1000))))
   \<and> requested (run logger [Owner CallStop, Owner (Wait 16), Tick, Owner CallStop, Tick]
                  (start (boot demo minusOne 1000))) = [- 1, - 1, - 1]
   \<and> requested (run logger [Owner (Wait 16), Tick, Owner CallStart, Tick]
                  (pause (start (boot demo minusOne 1000)))) = [- 1]"
proof -
  let ?w = "start (boot demo minusOne 1000)"
  have a: "isRunning (loop ?w)" and b: "\<not> isPaused (loop ?w)"
    and c: "frameRequestId (loop ?w) = INVALID_REQUEST_ID"
    and d: "\<forall>k. frameSource ?w k = INVALID_REQUEST_ID"
    and f: "Owner CallPause \<notin> set [Owner CallStop, Owner (Wait 16), Tick, Owner CallStop, Tick]"
    and g: "requested ?w = [- 1]"
    by (simp_all add: model_defs)
  from sentinel_handle_defeats_stop [OF a b c d passive_logger f,
      of logger "[Owner (Wait 16), Tick, Owner CallStart, Tick]"]
    a b c d passive_logger f g
  show ?thesis by (simp add: model_defs logger_def)
qed

end
